theory Spec2Isabelle
  imports Main "HOL-Library.Sublist" "HOL-Library.Word"
begin

section \<open>The X server as seen by xkey.c\<close>

text \<open>
  A \<open>Window\<close> is an XID (\<open>unsigned long\<close>). The program never computes with
  handles; it only passes them back to Xlib and prints them.
\<close>

type_synonym Window = "64 word"

text \<open>
  C strings are modelled as \<open>string\<close>: the characters before the terminating NUL.
  A raw byte buffer is a \<open>char list\<close> that may hold NUL bytes; \<open>c_str\<close> reads such
  a buffer the way \<open>strdup\<close>, \<open>printf("%s")\<close> and \<open>strstr\<close> do, up to the first NUL.
\<close>

abbreviation NUL :: char where
  "NUL \<equiv> CHR 0x00"

definition c_str :: "char list \<Rightarrow> string" where
  "c_str buf = takeWhile (\<lambda>c. c \<noteq> NUL) buf"

text \<open>
  The display connection \<open>d\<close> answers three queries of the program:
  \<^item> \<open>XQueryTree d w\<close>: \<open>None\<close> when the call returns status 0, otherwise the
    children array (\<open>nchildren\<close> is its length);
  \<^item> \<open>XGetWindowProperty d w\<close>, asked for \<open>_NET_WM_NAME\<close>: \<open>Some bytes\<close> when
    the call returns \<open>Success\<close> with a non-NULL \<open>prop\<close>, the raw property bytes;
  \<^item> \<open>XFetchName d w\<close>: \<open>Some name\<close> when the call returns non-zero with a
    non-NULL name (the legacy \<open>WM_NAME\<close>).

  A \<open>display\<close> is the server at one moment: the startup pass of the program is
  modelled against one such snapshot. Allocation (\<open>strdup\<close>, \<open>realloc\<close>) is taken
  to succeed.
\<close>

record display =
  DefaultRootWindow :: Window
  XQueryTree :: "Window \<Rightarrow> Window list option"
  XGetWindowProperty :: "Window \<Rightarrow> char list option"
  XFetchName :: "Window \<Rightarrow> string option"

subsection \<open>getWindowName (xkey.c, lines 57-89)\<close>

definition getWindowName :: "display \<Rightarrow> Window \<Rightarrow> string option" where
  "getWindowName disp w =
     (case XGetWindowProperty disp w of
        Some prop \<Rightarrow> Some (c_str prop)
      | None \<Rightarrow>
          (case XFetchName disp w of
             Some name_legacy \<Rightarrow> Some name_legacy
           | None \<Rightarrow> None))"

subsection \<open>nameMatchesDesignated (xkey.c, lines 95-104)\<close>

text \<open>
  \<open>strstr haystack needle\<close> of the C library: the suffix of the haystack that starts at
  the first occurrence of the needle, or \<open>None\<close> (NULL) when there is none.
\<close>

fun strstr :: "string \<Rightarrow> string \<Rightarrow> string option" where
  "strstr [] needle = (if needle = [] then Some [] else None)"
| "strstr (c # hay) needle =
     (if prefix needle (c # hay) then Some (c # hay) else strstr hay needle)"

text \<open>Both arguments are pointers: \<open>None\<close> is NULL. The result is a C truth value.\<close>

definition nameMatchesDesignated :: "string option \<Rightarrow> string option \<Rightarrow> int" where
  "nameMatchesDesignated wname designated =
     (case wname of
        None \<Rightarrow> 0
      | Some wn \<Rightarrow>
          if wn = [] then 0
          else (case designated of
                  None \<Rightarrow> 0
                | Some des \<Rightarrow>
                    if des = [] then 0
                    else if strstr wn des \<noteq> None then 1 else 0))"

subsection \<open>Program state\<close>

text \<open>
  \<open>matched_windows\<close> is the global dynamic array; \<open>matched_count\<close> is its length.
  The requests the program sends on the connection are effects: \<open>queried\<close> lists the
  windows passed to \<open>XQueryTree\<close>, \<open>selected\<close> the windows passed to
  \<open>XSelectInput\<close> (always with \<open>KeyPressMask | FocusChangeMask\<close>), both in the
  order of the calls.
\<close>

record xkey_state =
  matched_windows :: "Window list"
  queried :: "Window list"
  selected :: "Window list"

definition matched_count :: "xkey_state \<Rightarrow> int" where
  "matched_count st = int (length (matched_windows st))"

definition initial_state :: xkey_state where
  "initial_state = \<lparr>matched_windows = [], queried = [], selected = []\<rparr>"

definition query_tree :: "display \<Rightarrow> Window \<Rightarrow> xkey_state \<Rightarrow> Window list option \<times> xkey_state" where
  "query_tree d w st = (XQueryTree d w, st\<lparr>queried := queried st @ [w]\<rparr>)"

definition XSelectInput :: "Window \<Rightarrow> xkey_state \<Rightarrow> xkey_state" where
  "XSelectInput w st = st\<lparr>selected := selected st @ [w]\<rparr>"

subsection \<open>find_matched_windows (xkey.c, lines 118-150)\<close>

text \<open>
  The body of the \<open>for\<close> loop up to the recursive call (lines 130-140): the name of
  \<open>children[i]\<close> is resolved, and the handle is appended when the name matches.
\<close>

definition match_child :: "display \<Rightarrow> string \<Rightarrow> Window \<Rightarrow> xkey_state \<Rightarrow> xkey_state" where
  "match_child d designated c st =
     (case getWindowName d c of
        Some wname \<Rightarrow>
          if nameMatchesDesignated (Some wname) (Some designated) \<noteq> 0
          then st\<lparr>matched_windows := matched_windows st @ [c]\<rparr>
          else st
      | None \<Rightarrow> st)"

text \<open>
  The recursion follows the answers of the server, so nothing in the code bounds its
  depth. The first argument is fuel for the depth of the recursion; \<open>None\<close> means the
  fuel ran out.
\<close>

fun find_matched_windows :: "nat \<Rightarrow> display \<Rightarrow> string \<Rightarrow> Window \<Rightarrow> xkey_state \<Rightarrow> xkey_state option"
  and find_matched_loop :: "nat \<Rightarrow> display \<Rightarrow> string \<Rightarrow> Window list \<Rightarrow> xkey_state \<Rightarrow> xkey_state option"
where
  "find_matched_windows 0 d designated root st = None"
| "find_matched_windows (Suc n) d designated root st =
     (case query_tree d root st of
        (None, st1) \<Rightarrow> Some st1
      | (Some children, st1) \<Rightarrow>
          if children = [] then Some st1
          else find_matched_loop n d designated children st1)"
| "find_matched_loop n d designated [] st = Some st"
| "find_matched_loop n d designated (c # children) st =
     (case find_matched_windows n d designated c (match_child d designated c st) of
        None \<Rightarrow> None
      | Some st1 \<Rightarrow> find_matched_loop n d designated children st1)"

subsection \<open>snoop_windows (xkey.c, lines 158-213)\<close>

text \<open>
  The nested helper \<open>recursive_select\<close> (lines 195-207), with fuel for its depth as
  above.
\<close>

fun recursive_select :: "nat \<Rightarrow> display \<Rightarrow> Window \<Rightarrow> xkey_state \<Rightarrow> xkey_state option"
  and recursive_select_loop :: "nat \<Rightarrow> display \<Rightarrow> Window list \<Rightarrow> xkey_state \<Rightarrow> xkey_state option"
where
  "recursive_select 0 d w st = None"
| "recursive_select (Suc n) d w st =
     (case query_tree d w st of
        (None, st1) \<Rightarrow> Some st1
      | (Some ch, st1) \<Rightarrow>
          if ch = [] then Some st1
          else recursive_select_loop n d ch st1)"
| "recursive_select_loop n d [] st = Some st"
| "recursive_select_loop n d (c # ch) st =
     (case recursive_select n d c (XSelectInput c st) of
        None \<Rightarrow> None
      | Some st1 \<Rightarrow> recursive_select_loop n d ch st1)"

text \<open>
  The loop over the children of the root in the fallback branch (lines 189-209) has the
  body of the loop in \<open>recursive_select\<close>: select on \<open>children[i]\<close>, then
  \<open>recursive_select(children[i])\<close>. The second component of the result is
  \<open>*foundAnyMatches\<close>.
\<close>

definition snoop_windows :: "nat \<Rightarrow> display \<Rightarrow> string \<Rightarrow> xkey_state \<Rightarrow> (xkey_state \<times> int) option" where
  "snoop_windows n d designated st =
     (let root = DefaultRootWindow d in
      case find_matched_windows n d designated root st of
        None \<Rightarrow> None
      | Some st1 \<Rightarrow>
          if matched_count st1 > 0
          then Some (fold XSelectInput (matched_windows st1) st1, 1)
          else (case query_tree d root st1 of
                  (None, st2) \<Rightarrow> Some (st2, 0)
                | (Some children, st2) \<Rightarrow>
                    if children = [] then Some (st2, 0)
                    else (case recursive_select_loop n d children st2 of
                            None \<Rightarrow> None
                          | Some st3 \<Rightarrow> Some (st3, 0))))"

text \<open>The monitoring set: the windows on which input was selected.\<close>

definition monitoring_set :: "xkey_state \<Rightarrow> Window set" where
  "monitoring_set st = set (selected st)"

section \<open>Window hierarchies\<close>

text \<open>
  A finite hierarchy is a finite tree of handles. \<open>hierarchy_of d t\<close> says that the
  server \<open>d\<close> answers the child query of every window of \<open>t\<close> with the children
  \<open>t\<close> gives it, in order; a window whose query fails shows no children. In a
  window hierarchy every window has one parent, so each handle occurs once:
  \<open>distinct (preorder t)\<close>.
  \<open>preorder\<close> lists a tree node first, then the subtrees from left to right;
  \<open>descendants\<close> leaves the root out.
\<close>

datatype wtree = WNode (handle: Window) (subtrees: "wtree list")

fun preorder :: "wtree \<Rightarrow> Window list" where
  "preorder (WNode w ts) = w # concat (map preorder ts)"

definition descendants :: "wtree \<Rightarrow> Window list" where
  "descendants t = concat (map preorder (subtrees t))"

fun height :: "wtree \<Rightarrow> nat" where
  "height (WNode w ts) = Suc (foldr max (map height ts) 0)"

fun hierarchy_of :: "display \<Rightarrow> wtree \<Rightarrow> bool" where
  "hierarchy_of d (WNode w ts) =
     ((case XQueryTree d w of
         None \<Rightarrow> ts = []
       | Some children \<Rightarrow> children = map handle ts)
      \<and> (\<forall>t \<in> set ts. hierarchy_of d t))"

text \<open>The test of the loop body on one window: its name resolves and matches.\<close>

definition accepts :: "display \<Rightarrow> string \<Rightarrow> Window \<Rightarrow> bool" where
  "accepts d designated w =
     (case getWindowName d w of
        None \<Rightarrow> False
      | Some wname \<Rightarrow> nameMatchesDesignated (Some wname) (Some designated) \<noteq> 0)"

text \<open>The claims speak of a name that contains the designator as a substring.\<close>

definition name_contains :: "display \<Rightarrow> string \<Rightarrow> Window \<Rightarrow> bool" where
  "name_contains d designated w =
     (case getWindowName d w of
        None \<Rightarrow> False
      | Some wname \<Rightarrow> sublist designated wname)"

section \<open>Key translation (xkey.c, lines 218-239)\<close>

type_synonym KeySym = "64 word"

record XKeyEvent =
  window :: Window
  state :: "32 word"
  keycode :: "32 word"

text \<open>
  Xlib's keyboard tables are not part of the program. \<open>translation kb ev\<close> is the
  string and the keysym that the client's keyboard mapping gives the event.
  \<open>XLookupString\<close> follows its manual page: no more than \<open>bytes_buffer\<close> characters
  of the translation are copied to the buffer, and their number is returned.
  \<open>XKeysymToString\<close> is \<open>None\<close> when Xlib returns NULL.
\<close>

record keyboard =
  translation :: "XKeyEvent \<Rightarrow> char list \<times> KeySym"
  XKeysymToString :: "KeySym \<Rightarrow> string option"

definition XLookupString :: "keyboard \<Rightarrow> XKeyEvent \<Rightarrow> nat \<Rightarrow> char list \<times> KeySym" where
  "XLookupString kb xk bytes_buffer =
     (case translation kb xk of (s, ks) \<Rightarrow> (take bytes_buffer s, ks))"

definition KEY_BUFF_SIZE :: nat where
  "KEY_BUFF_SIZE = 256"

text \<open>
  What stops the program: \<open>exit(1)\<close> after a failed \<open>fopen\<close>, and a store outside
  \<open>key_buff\<close> (undefined behaviour in C), with the index of the store.
\<close>

datatype error = Exit_1 | Store_Outside_key_buff nat

text \<open>
  \<open>snprintf(buf, n, ...)\<close> with the formatted text \<open>out\<close>: at most \<open>n - 1\<close>
  characters are stored, then a NUL; the rest of the buffer keeps its bytes.
\<close>

definition snprintf :: "char list \<Rightarrow> nat \<Rightarrow> string \<Rightarrow> char list" where
  "snprintf buf n out =
     (let stored = take (n - 1) out
      in stored @ [NUL] @ drop (length stored + 1) buf)"

text \<open>
  \<open>TranslateKeyCode\<close> returns the address of \<open>key_buff\<close>; the model returns the new
  contents of the buffer, which the caller reads as a C string.
\<close>

definition TranslateKeyCode :: "keyboard \<Rightarrow> XKeyEvent \<Rightarrow> char list \<Rightarrow> error + char list" where
  "TranslateKeyCode kb xk key_buff =
     (case XLookupString kb xk KEY_BUFF_SIZE of
        (bytes, ks) \<Rightarrow>
          let count = length bytes;
              buf1 = bytes @ drop count key_buff
          in if KEY_BUFF_SIZE \<le> count then Inl (Store_Outside_key_buff count)
             else
               let buf2 = buf1[count := NUL]
               in if count = 0
                  then (case XKeysymToString kb ks of
                          Some tmp \<Rightarrow> Inr (snprintf buf2 KEY_BUFF_SIZE (''<'' @ tmp @ ''>''))
                        | None \<Rightarrow> Inr (snprintf buf2 KEY_BUFF_SIZE ''<UnknownKey>''))
                  else Inr buf2)"

section \<open>The capture loop (xkey.c, lines 269-329)\<close>

datatype XEvent = FocusIn Window | KeyPress XKeyEvent | OtherEvent

text \<open>
  \<open>getTimeStr\<close> (lines 28-46) reads the clock: \<open>time\<close> may fail, \<open>localtime\<close> may
  fail, otherwise \<open>strftime\<close> formats the local time and \<open>Local_Time\<close> carries its
  output.
\<close>

datatype clock = Time_Fails | Localtime_Fails | Local_Time string

definition getTimeStr :: "clock \<Rightarrow> string" where
  "getTimeStr clk =
     (case clk of
        Time_Fails \<Rightarrow> ''UnknownTime''
      | Localtime_Fails \<Rightarrow> ''UnknownTime''
      | Local_Time s \<Rightarrow> s)"

text \<open>\<open>printf("%lx")\<close>: lower-case hexadecimal without leading zeros.\<close>

definition hex_digit :: "nat \<Rightarrow> char" where
  "hex_digit n = ''0123456789abcdef'' ! (n mod 16)"

fun hex :: "nat \<Rightarrow> string" where
  "hex n = (if n < 16 then [hex_digit n] else hex (n div 16) @ [hex_digit n])"

abbreviation NL :: char where
  "NL \<equiv> CHR 0x0A"

text \<open>
  The files the loop writes: the contents of \<open>keylog.txt\<close>, the characters sent to
  standard output, and the static buffer \<open>key_buff\<close>.
\<close>

record capture_state =
  keylog :: string
  console :: string
  key_buff :: "char list"

text \<open>
  What one iteration of \<open>while (1)\<close> receives from outside: the event from
  \<open>XNextEvent\<close>, the server at that time, whether \<open>fopen("keylog.txt", "a")\<close>
  succeeds, and the clock.
\<close>

record iteration =
  event :: XEvent
  server :: display
  fopen_ok :: bool
  now :: clock

definition loop_body :: "keyboard \<Rightarrow> iteration \<Rightarrow> capture_state \<Rightarrow> error + capture_state" where
  "loop_body kb it cs =
     (if \<not> fopen_ok it then Inl Exit_1
      else
        (case event it of
           FocusIn focusedWin \<Rightarrow>
             (case getWindowName (server it) focusedWin of
                Some wname \<Rightarrow>
                  if wname \<noteq> []
                  then
                    let time_str = getTimeStr (now it)
                    in Inr (cs\<lparr>console := console cs @ [NL] @ ''['' @ time_str @ ''] FocusIn: 0x''
                                     @ hex (unat focusedWin) @ '' => '' @ wname @ [NL],
                                keylog := keylog cs @ [NL] @ ''['' @ time_str @ ''] FocusIn: ''
                                     @ wname @ [NL]\<rparr>)
                  else Inr cs
              | None \<Rightarrow> Inr cs)
         | KeyPress xk \<Rightarrow>
             (case TranslateKeyCode kb xk (key_buff cs) of
                Inl e \<Rightarrow> Inl e
              | Inr buf \<Rightarrow>
                  Inr (cs\<lparr>key_buff := buf,
                          console := console cs @ c_str buf,
                          keylog := keylog cs @ c_str buf\<rparr>))
         | OtherEvent \<Rightarrow> Inr cs))"

text \<open>
  The loop never ends by itself. \<open>capture_loop\<close> runs it on the iterations that have
  happened so far, and stops where the program exits.
\<close>

fun capture_loop :: "keyboard \<Rightarrow> iteration list \<Rightarrow> capture_state \<Rightarrow> error + capture_state" where
  "capture_loop kb [] cs = Inr cs"
| "capture_loop kb (it # its) cs =
     (case loop_body kb it cs of
        Inl e \<Rightarrow> Inl e
      | Inr cs1 \<Rightarrow> capture_loop kb its cs1)"

text \<open>
  Before the loop, \<open>main\<close> writes the banner (lines 269-276); \<open>key_buff\<close> is a
  static array, so it starts as zeros.
\<close>

definition start_state :: capture_state where
  "start_state =
     \<lparr>keylog = ''Keylogger started'' @ [NL], console = [],
      key_buff = replicate KEY_BUFF_SIZE NUL\<rparr>"

text \<open>
  The fragment of a key event: the C string that \<open>TranslateKeyCode\<close> returns for it
  on the buffer as it is at program start.
\<close>

definition key_fragment :: "keyboard \<Rightarrow> XKeyEvent \<Rightarrow> string" where
  "key_fragment kb xk =
     (case TranslateKeyCode kb xk (replicate KEY_BUFF_SIZE NUL) of
        Inr buf \<Rightarrow> c_str buf
      | Inl e \<Rightarrow> [])"

definition logged_fragment :: "keyboard \<Rightarrow> iteration \<Rightarrow> string" where
  "logged_fragment kb it =
     (case event it of
        KeyPress xk \<Rightarrow> key_fragment kb xk
      | _ \<Rightarrow> [])"

section \<open>A small session\<close>

text \<open>
  A root window 1 with three children: window 2 (legacy name \<open>Firefox\<close>) with one
  child, window 4 (both title properties, the modern one with bytes after a NUL);
  window 5 without a name, whose child query fails; window 3 (legacy name \<open>gedit\<close>).
\<close>

definition example_display :: display where
  "example_display =
     \<lparr>DefaultRootWindow = 1,
      XQueryTree = (\<lambda>w. if w = 1 then Some [2, 5, 3]
                         else if w = 2 then Some [4]
                         else if w = 3 \<or> w = 4 then Some []
                         else None),
      XGetWindowProperty = (\<lambda>w. if w = 4 then Some (''xterm'' @ [NUL] @ ''junk'') else None),
      XFetchName = (\<lambda>w. if w = 2 then Some ''Firefox''
                         else if w = 3 then Some ''gedit''
                         else if w = 4 then Some ''legacy''
                         else None)\<rparr>"

definition example_tree :: wtree where
  "example_tree = WNode 1 [WNode 2 [WNode 4 []], WNode 5 [], WNode 3 []]"

text \<open>
  A keyboard: keys 43 and 31 give \<open>h\<close> and \<open>i\<close>, key 36 has no string and a keysym
  with the name \<open>Return\<close>, key 65 is the space bar, which gives a NUL byte with
  Control held (state 4), and key 248 has no keysym.
\<close>

definition example_keyboard :: keyboard where
  "example_keyboard =
     \<lparr>translation = (\<lambda>xk. if keycode xk = 43 then (''h'', 0x68)
                          else if keycode xk = 31 then (''i'', 0x69)
                          else if keycode xk = 36 then ([], 0xff0d)
                          else if keycode xk = 65 \<and> state xk = 4 then ([NUL], 0x20)
                          else if keycode xk = 65 then ('' '', 0x20)
                          else ([], 0)),
      XKeysymToString = (\<lambda>ks. if ks = 0x68 then Some ''h''
                              else if ks = 0x69 then Some ''i''
                              else if ks = 0xff0d then Some ''Return''
                              else if ks = 0x20 then Some ''space''
                              else None)\<rparr>"

definition key_event :: "32 word \<Rightarrow> 32 word \<Rightarrow> XKeyEvent" where
  "key_event st kc = \<lparr>window = 2, state = st, keycode = kc\<rparr>"

definition key_press :: "32 word \<Rightarrow> iteration" where
  "key_press kc =
     \<lparr>event = KeyPress (key_event 0 kc), server = example_display, fopen_ok = True,
      now = Local_Time ''2024-05-01 12:00:00''\<rparr>"

definition focus_in :: "Window \<Rightarrow> iteration" where
  "focus_in w =
     \<lparr>event = FocusIn w, server = example_display, fopen_ok = True,
      now = Local_Time ''2024-05-01 12:00:00''\<rparr>"

text \<open>
  A window whose title holds a line break followed by text in the form of a focus
  record; any client may set such a title.
\<close>

definition two_line_title :: iteration where
  "two_line_title =
     \<lparr>event = FocusIn 6,
      server = example_display
        \<lparr>XFetchName :=
           (XFetchName example_display)
             (6 := Some (''a'' @ [NL] @ ''[2024-05-01 12:00:00] FocusIn: b''))\<rparr>,
      fopen_ok = True,
      now = Local_Time ''2024-05-01 12:00:00''\<rparr>"

section \<open>Lines of the log\<close>

text \<open>
  The lines of a text: the pieces between its line breaks. The last piece is the line
  that is still open; it is empty when the text ends in a line break.
\<close>

fun log_lines :: "string \<Rightarrow> string list" where
  "log_lines [] = [[]]"
| "log_lines (c # cs) =
     (if c = NL then [] # log_lines cs
      else (case log_lines cs of
              l # ls \<Rightarrow> (c # l) # ls
            | [] \<Rightarrow> [[c]]))"

section \<open>The strings of a client that rebinds no key\<close>


section \<open>The C library's substring search\<close>

lemma strstr_sublist: "strstr hay needle \<noteq> None \<longleftrightarrow> sublist needle hay"
  by (induction hay) (auto simp: sublist_Cons_right)

lemma nameMatchesDesignated_iff:
  "nameMatchesDesignated wname designated \<noteq> 0 \<longleftrightarrow>
     (\<exists>wn des. wname = Some wn \<and> designated = Some des \<and> wn \<noteq> [] \<and> des \<noteq> [] \<and> sublist des wn)"
  using strstr_sublist
  by (auto simp: nameMatchesDesignated_def split: option.splits)

lemma accepts_iff:
  "accepts d des w \<longleftrightarrow> des \<noteq> [] \<and> name_contains d des w"
  by (auto simp: accepts_def name_contains_def nameMatchesDesignated_iff split: option.splits)

lemma match_child_eq:
  "match_child d des c st =
     st\<lparr>matched_windows := matched_windows st @ filter (accepts d des) [c]\<rparr>"
  by (simp add: match_child_def accepts_def split: option.splits)

section \<open>The traversal on a finite hierarchy\<close>

lemma height_subtree: "t \<in> set ts \<Longrightarrow> height t \<le> foldr max (map height ts) 0"
  by (induction ts) (auto simp: max_def)

lemma preorder_not_Nil: "preorder t \<noteq> []"
  by (cases t) simp

lemma find_matched_loop_hierarchy:
  assumes IH: "\<And>t st. t \<in> set ts \<Longrightarrow>
      find_matched_windows n d des (handle t) st =
        Some (st\<lparr>matched_windows := matched_windows st @ filter (accepts d des) (descendants t),
                 queried := queried st @ preorder t\<rparr>)"
  shows "find_matched_loop n d des (map handle ts) st =
        Some (st\<lparr>matched_windows :=
                   matched_windows st @ filter (accepts d des) (concat (map preorder ts)),
                 queried := queried st @ concat (map preorder ts)\<rparr>)"
  using IH
proof (induction ts arbitrary: st)
  case Nil
  show ?case by simp
next
  case (Cons t ts)
  have pre: "preorder t = handle t # descendants t"
    by (cases t) (simp add: descendants_def)
  show ?case
    using Cons.prems[of t] Cons.IH Cons.prems
    by (simp add: match_child_eq pre)
qed

lemma find_matched_windows_hierarchy:
  "hierarchy_of d t \<Longrightarrow> height t \<le> n \<Longrightarrow>
   find_matched_windows n d des (handle t) st =
     Some (st\<lparr>matched_windows := matched_windows st @ filter (accepts d des) (descendants t),
              queried := queried st @ preorder t\<rparr>)"
proof (induction t arbitrary: n st)
  case (WNode w ts)
  from WNode.prems(2) obtain m where n: "n = Suc m" and m: "foldr max (map height ts) 0 \<le> m"
    by (cases n) auto
  have sub: "\<And>t st. t \<in> set ts \<Longrightarrow>
      find_matched_windows m d des (handle t) st =
        Some (st\<lparr>matched_windows := matched_windows st @ filter (accepts d des) (descendants t),
                 queried := queried st @ preorder t\<rparr>)"
  proof -
    fix t st assume t: "t \<in> set ts"
    have "height t \<le> m" using height_subtree[OF t] m by simp
    moreover have "hierarchy_of d t" using WNode.prems(1) t by simp
    ultimately show "find_matched_windows m d des (handle t) st =
        Some (st\<lparr>matched_windows := matched_windows st @ filter (accepts d des) (descendants t),
                 queried := queried st @ preorder t\<rparr>)"
      using WNode.IH[OF t] by blast
  qed
  show ?case
  proof (cases "XQueryTree d w")
    case None
    with WNode.prems(1) have "ts = []" by simp
    with None n show ?thesis by (simp add: query_tree_def descendants_def)
  next
    case (Some children)
    with WNode.prems(1) have ch: "children = map handle ts" by simp
    show ?thesis
    proof (cases "ts = []")
      case True
      with Some ch n show ?thesis by (simp add: query_tree_def descendants_def)
    next
      case False
      with Some ch n show ?thesis
        using find_matched_loop_hierarchy[of ts m d des, OF sub]
        by (simp add: query_tree_def descendants_def)
    qed
  qed
qed

lemma match_child_matched:
  "set (matched_windows (match_child d D c st)) \<subseteq> set (matched_windows st) \<union> {w. accepts d D w}"
  by (auto simp: match_child_eq)

lemma find_matched_sound:
  "(find_matched_windows n d D root st = Some st' \<longrightarrow>
      set (matched_windows st') \<subseteq> set (matched_windows st) \<union> {w. accepts d D w})
   \<and> (find_matched_loop n d D cs st = Some st' \<longrightarrow>
      set (matched_windows st') \<subseteq> set (matched_windows st) \<union> {w. accepts d D w})"
proof (induction n arbitrary: root cs st st')
  case 0
  have "find_matched_loop 0 d D cs st = Some st' \<longrightarrow>
      set (matched_windows st') \<subseteq> set (matched_windows st) \<union> {w. accepts d D w}"
    by (induction cs arbitrary: st) auto
  then show ?case by simp
next
  case (Suc n)
  have loop: "find_matched_loop n d D cs st = Some st' \<Longrightarrow>
      set (matched_windows st') \<subseteq> set (matched_windows st) \<union> {w. accepts d D w}" for cs st st'
    using Suc.IH by blast
  have win: "find_matched_windows (Suc n) d D root st = Some st' \<Longrightarrow>
      set (matched_windows st') \<subseteq> set (matched_windows st) \<union> {w. accepts d D w}" for root st st'
    using loop[of _ "st\<lparr>queried := queried st @ [root]\<rparr>" st']
    by (auto simp: query_tree_def split: option.splits if_splits)
  have "find_matched_loop (Suc n) d D cs st = Some st' \<longrightarrow>
      set (matched_windows st') \<subseteq> set (matched_windows st) \<union> {w. accepts d D w}"
  proof (induction cs arbitrary: st)
    case Nil
    show ?case by simp
  next
    case (Cons c cs)
    show ?case
    proof
      assume a: "find_matched_loop (Suc n) d D (c # cs) st = Some st'"
      then obtain st1 where 1: "find_matched_windows (Suc n) d D c (match_child d D c st) = Some st1"
        and 2: "find_matched_loop (Suc n) d D cs st1 = Some st'"
        by (auto split: option.splits)
      from win[OF 1] match_child_matched[of d D c st] Cons.IH[of st1] 2
      show "set (matched_windows st') \<subseteq> set (matched_windows st) \<union> {w. accepts d D w}"
        by blast
    qed
  qed
  with win show ?case by blast
qed

lemma recursive_select_loop_hierarchy:
  assumes IH: "\<And>t st. t \<in> set ts \<Longrightarrow>
      recursive_select n d (handle t) st =
        Some (st\<lparr>queried := queried st @ preorder t,
                 selected := selected st @ descendants t\<rparr>)"
  shows "recursive_select_loop n d (map handle ts) st =
        Some (st\<lparr>queried := queried st @ concat (map preorder ts),
                 selected := selected st @ concat (map preorder ts)\<rparr>)"
  using IH
proof (induction ts arbitrary: st)
  case Nil
  show ?case by simp
next
  case (Cons t ts)
  have pre: "preorder t = handle t # descendants t"
    by (cases t) (simp add: descendants_def)
  show ?case
    using Cons.prems[of t] Cons.IH Cons.prems
    by (simp add: XSelectInput_def pre)
qed

lemma recursive_select_hierarchy:
  "hierarchy_of d t \<Longrightarrow> height t \<le> n \<Longrightarrow>
   recursive_select n d (handle t) st =
     Some (st\<lparr>queried := queried st @ preorder t,
              selected := selected st @ descendants t\<rparr>)"
proof (induction t arbitrary: n st)
  case (WNode w ts)
  from WNode.prems(2) obtain m where n: "n = Suc m" and m: "foldr max (map height ts) 0 \<le> m"
    by (cases n) auto
  have sub: "\<And>t st. t \<in> set ts \<Longrightarrow>
      recursive_select m d (handle t) st =
        Some (st\<lparr>queried := queried st @ preorder t,
                 selected := selected st @ descendants t\<rparr>)"
  proof -
    fix t st assume t: "t \<in> set ts"
    have "height t \<le> m" using height_subtree[OF t] m by simp
    moreover have "hierarchy_of d t" using WNode.prems(1) t by simp
    ultimately show "recursive_select m d (handle t) st =
        Some (st\<lparr>queried := queried st @ preorder t,
                 selected := selected st @ descendants t\<rparr>)"
      using WNode.IH[OF t] by blast
  qed
  show ?case
  proof (cases "XQueryTree d w")
    case None
    with WNode.prems(1) have "ts = []" by simp
    with None n show ?thesis by (simp add: query_tree_def descendants_def)
  next
    case (Some children)
    with WNode.prems(1) have ch: "children = map handle ts" by simp
    show ?thesis
    proof (cases "ts = []")
      case True
      with Some ch n show ?thesis by (simp add: query_tree_def descendants_def)
    next
      case False
      with Some ch n show ?thesis
        using recursive_select_loop_hierarchy[of ts m d, OF sub]
        by (simp add: query_tree_def descendants_def)
    qed
  qed
qed

lemma fold_XSelectInput:
  "fold XSelectInput ws st = st\<lparr>selected := selected st @ ws\<rparr>"
  by (induction ws arbitrary: st) (simp_all add: XSelectInput_def)

lemma snoop_windows_hierarchy:
  assumes H: "hierarchy_of d t" and R: "handle t = DefaultRootWindow d" and F: "height t \<le> n"
  shows "snoop_windows n d des initial_state =
     (let ms = filter (accepts d des) (descendants t)
      in if ms \<noteq> []
         then Some (\<lparr>matched_windows = ms, queried = preorder t, selected = ms\<rparr>, 1)
         else Some (\<lparr>matched_windows = [], queried = preorder t @ preorder t,
                     selected = descendants t\<rparr>, 0))"
proof (cases t)
  case (WNode w ts)
  have sub: "\<And>t' st. t' \<in> set ts \<Longrightarrow>
      recursive_select n d (handle t') st =
        Some (st\<lparr>queried := queried st @ preorder t',
                 selected := selected st @ descendants t'\<rparr>)"
  proof -
    fix t' st assume t': "t' \<in> set ts"
    have "height t' \<le> n" using height_subtree[OF t'] F WNode by simp
    moreover have "hierarchy_of d t'" using H t' WNode by simp
    ultimately show "recursive_select n d (handle t') st =
        Some (st\<lparr>queried := queried st @ preorder t',
                 selected := selected st @ descendants t'\<rparr>)"
      by (simp add: recursive_select_hierarchy)
  qed
  note loop = recursive_select_loop_hierarchy[of ts n d, OF sub]
  note fm = find_matched_windows_hierarchy[OF H F, of des initial_state]
  show ?thesis
  proof (cases "XQueryTree d w")
    case None
    with H WNode have "ts = []" by simp
    with None WNode R fm show ?thesis
      by (simp add: snoop_windows_def Let_def matched_count_def initial_state_def
          query_tree_def descendants_def)
  next
    case (Some children)
    with H WNode have ch: "children = map handle ts" by simp
    with Some WNode R fm loop show ?thesis
      by (simp add: snoop_windows_def Let_def matched_count_def initial_state_def
          query_tree_def descendants_def fold_XSelectInput)
  qed
qed

lemma monitoring_of_snoop:
  assumes "hierarchy_of d t" "handle t = DefaultRootWindow d" "height t \<le> n"
  shows "map_option (\<lambda>(st, found). (monitoring_set st, found)) (snoop_windows n d D initial_state) =
     (if filter (accepts d D) (descendants t) \<noteq> []
      then Some (set (filter (accepts d D) (descendants t)), 1)
      else Some (set (descendants t), 0))"
  using snoop_windows_hierarchy[OF assms, of D]
  by (simp add: Let_def monitoring_set_def)

section \<open>The key buffer\<close>

lemma length_snprintf:
  "length buf = KEY_BUFF_SIZE \<Longrightarrow> length (snprintf buf KEY_BUFF_SIZE out) = KEY_BUFF_SIZE"
  by (simp add: snprintf_def KEY_BUFF_SIZE_def Let_def min_def)

lemma c_str_append_NUL: "c_str (xs @ NUL # ys) = c_str xs"
  by (induction xs) (simp_all add: c_str_def)

lemma c_str_snprintf:
  "c_str (snprintf buf KEY_BUFF_SIZE out) = c_str (take 255 out)"
  by (simp add: snprintf_def KEY_BUFF_SIZE_def Let_def c_str_append_NUL)

lemma c_str_no_NUL: "NUL \<notin> set xs \<Longrightarrow> c_str xs = xs"
  by (auto simp: c_str_def)

text \<open>The text that a key event leaves in \<open>key_buff\<close>, whatever the buffer held before.\<close>

lemma TranslateKeyCode_short:
  assumes tr: "translation kb xk = (s, ks)" and len: "length s < KEY_BUFF_SIZE"
    and buf: "length kbuf = KEY_BUFF_SIZE"
  shows "\<exists>buf'. TranslateKeyCode kb xk kbuf = Inr buf' \<and> length buf' = KEY_BUFF_SIZE
     \<and> c_str buf' =
         (if s \<noteq> [] then c_str s
          else case XKeysymToString kb ks of
                 Some tmp \<Rightarrow> c_str (take 255 (''<'' @ tmp @ ''>''))
               | None \<Rightarrow> ''<UnknownKey>'')"
proof -
  have look: "XLookupString kb xk KEY_BUFF_SIZE = (s, ks)"
    using tr len by (simp add: XLookupString_def)
  have upd: "(s @ drop (length s) kbuf)[length s := NUL] = s @ NUL # drop (Suc (length s)) kbuf"
    using len buf by (simp add: list_update_append Cons_nth_drop_Suc[symmetric] upd_conv_take_nth_drop drop_Suc
        flip: Cons_nth_drop_Suc)
  show ?thesis
  proof (cases "s = []")
    case True
    then show ?thesis
      using look buf
      by (cases "XKeysymToString kb ks")
         (simp_all add: TranslateKeyCode_def Let_def length_snprintf c_str_snprintf,
          simp_all add: KEY_BUFF_SIZE_def c_str_def)
  next
    case False
    then show ?thesis
      using look len buf upd
      by (simp add: TranslateKeyCode_def Let_def c_str_append_NUL)
  qed
qed

lemma key_fragment_eq:
  assumes "translation kb xk = (s, ks)" and "length s < KEY_BUFF_SIZE"
    and "length kbuf = KEY_BUFF_SIZE" and "TranslateKeyCode kb xk kbuf = Inr buf'"
  shows "c_str buf' = key_fragment kb xk"
  using TranslateKeyCode_short[OF assms(1,2,3)]
    TranslateKeyCode_short[OF assms(1,2), of "replicate KEY_BUFF_SIZE NUL"] assms(4)
  by (auto simp: key_fragment_def)

lemma key_fragment_short:
  assumes "translation kb xk = (s, ks)" and "length s < KEY_BUFF_SIZE"
  shows "key_fragment kb xk =
         (if s \<noteq> [] then c_str s
          else case XKeysymToString kb ks of
                 Some tmp \<Rightarrow> c_str (take 255 (''<'' @ tmp @ ''>''))
               | None \<Rightarrow> ''<UnknownKey>'')"
  using TranslateKeyCode_short[OF assms, of "replicate KEY_BUFF_SIZE NUL"]
  by (auto simp: key_fragment_def)

lemma loop_body_KeyPress:
  assumes "fopen_ok it" and "event it = KeyPress xk"
    and "length (fst (translation kb xk)) < KEY_BUFF_SIZE"
    and "length (key_buff cs) = KEY_BUFF_SIZE"
  shows "\<exists>cs'. loop_body kb it cs = Inr cs' \<and> length (key_buff cs') = KEY_BUFF_SIZE
     \<and> keylog cs' = keylog cs @ logged_fragment kb it
     \<and> console cs' = console cs @ logged_fragment kb it"
proof -
  obtain s ks where tr: "translation kb xk = (s, ks)"
    by (cases "translation kb xk")
  with assms(3) have len: "length s < KEY_BUFF_SIZE" by simp
  from TranslateKeyCode_short[OF tr len assms(4)]
  obtain buf' where b: "TranslateKeyCode kb xk (key_buff cs) = Inr buf'"
    and l: "length buf' = KEY_BUFF_SIZE" by blast
  from key_fragment_eq[OF tr len assms(4) b] have "c_str buf' = key_fragment kb xk" .
  with b l assms(1,2) show ?thesis
    by (simp add: loop_body_def logged_fragment_def)
qed

section \<open>Line breaks\<close>

lemma log_lines_not_Nil: "log_lines s \<noteq> []"
  by (induction s) (auto split: list.splits)

lemma log_lines_append_NL: "log_lines (xs @ NL # ys) = log_lines xs @ log_lines ys"
proof (induction xs)
  case Nil
  show ?case by simp
next
  case (Cons x xs)
  show ?case
  proof (cases "log_lines xs")
    case Nil
    with log_lines_not_Nil show ?thesis by blast
  next
    case (Cons l ls)
    with Cons.IH show ?thesis by simp
  qed
qed

lemma log_lines_no_NL: "NL \<notin> set s \<Longrightarrow> log_lines s = [s]"
  by (induction s) auto

section \<open>The small session, evaluated\<close>

lemma example_hierarchy:
  "hierarchy_of example_display example_tree \<and> handle example_tree = DefaultRootWindow example_display
   \<and> height example_tree \<le> 3"
  by (simp add: example_display_def example_tree_def)

lemma example_descendants: "descendants example_tree = [2, 4, 5, 3]"
  by (simp add: example_tree_def descendants_def)

lemma example_names:
  "getWindowName example_display 2 = Some ''Firefox''"
  "getWindowName example_display 3 = Some ''gedit''"
  "getWindowName example_display 4 = Some ''xterm''"
  "getWindowName example_display 5 = None"
  by (simp_all add: example_display_def getWindowName_def c_str_def)

lemma example_fragments:
  "key_fragment example_keyboard (key_event 0 43) = ''h''"
  "key_fragment example_keyboard (key_event 0 31) = ''i''"
  "key_fragment example_keyboard (key_event 0 36) = ''<Return>''"
  using key_fragment_short[of example_keyboard "key_event 0 43" "''h''" "0x68"]
    key_fragment_short[of example_keyboard "key_event 0 31" "''i''" "0x69"]
    key_fragment_short[of example_keyboard "key_event 0 36" "[]" "0xff0d"]
  by (simp_all add: example_keyboard_def key_event_def KEY_BUFF_SIZE_def c_str_def)

section \<open>Claims about the monitoring set\<close>

text \<open>
  C1: for every finite hierarchy \<open>t\<close> under the root window and every designator
  \<open>D\<close>, if the resolved name of at least one window of the hierarchy contains \<open>D\<close>,
  then \<open>snoop_windows\<close> returns, reports a match, and the set of windows on which it
  selected input is exactly the set of windows of the hierarchy whose resolved name
  contains \<open>D\<close>. A name contains a designator when the designator is not empty and
  occurs in it as a substring: the empty designator is contained in no name.
\<close>

theorem C1_targeted_monitoring:
  assumes "hierarchy_of d t" and "handle t = DefaultRootWindow d" and "height t \<le> n"
    and "\<exists>w \<in> set (descendants t). accepts d D w"
  shows "map_option (\<lambda>(st, found). (monitoring_set st, found)) (snoop_windows n d D initial_state) =
           Some ({w \<in> set (descendants t). accepts d D w}, 1)
         \<and> {w \<in> set (descendants t). accepts d D w} =
             {w \<in> set (descendants t). D \<noteq> [] \<and> name_contains d D w}"
proof -
  from assms(4) have "filter (accepts d D) (descendants t) \<noteq> []"
    by (auto simp: filter_empty_conv)
  with monitoring_of_snoop[OF assms(1-3), of D]
  have "map_option (\<lambda>(st, found). (monitoring_set st, found)) (snoop_windows n d D initial_state) =
           Some ({w \<in> set (descendants t). accepts d D w}, 1)"
    by simp
  moreover have "{w \<in> set (descendants t). accepts d D w} =
             {w \<in> set (descendants t). D \<noteq> [] \<and> name_contains d D w}"
    by (auto simp: accepts_iff)
  ultimately show ?thesis by blast
qed

theorem C1_targeted_monitoring_witness:
  "hierarchy_of example_display example_tree
   \<and> handle example_tree = DefaultRootWindow example_display
   \<and> height example_tree \<le> 3
   \<and> 2 \<in> set (descendants example_tree) \<and> accepts example_display ''fox'' 2
   \<and> map_option (\<lambda>(st, found). (monitoring_set st, found))
        (snoop_windows 3 example_display ''fox'' initial_state) = Some ({2}, 1)
   \<and> {w \<in> set (descendants example_tree). ''fox'' \<noteq> [] \<and> name_contains example_display ''fox'' w}
        = {2}"
proof -
  have names: "name_contains example_display ''fox'' 2" "\<not> name_contains example_display ''fox'' 3"
    "\<not> name_contains example_display ''fox'' 4" "\<not> name_contains example_display ''fox'' 5"
    by (simp_all add: name_contains_def example_names sublist_code)
  have acc: "accepts example_display ''fox'' 2"
    using names by (simp add: accepts_iff)
  have ex: "\<exists>w \<in> set (descendants example_tree). accepts example_display ''fox'' w"
    using acc by (simp add: example_descendants)
  have two: "{w \<in> set (descendants example_tree). ''fox'' \<noteq> [] \<and> name_contains example_display ''fox'' w}
        = {2}"
    using names by (auto simp: example_descendants)
  have accs: "{w \<in> set (descendants example_tree). accepts example_display ''fox'' w} = {2}"
    using names by (auto simp: example_descendants accepts_iff)
  from C1_targeted_monitoring[of example_display example_tree 3 "''fox''"] ex example_hierarchy
  have "map_option (\<lambda>(st, found). (monitoring_set st, found))
        (snoop_windows 3 example_display ''fox'' initial_state) = Some ({2}, 1)"
    by (simp only: accs)
  with example_hierarchy two acc show ?thesis
    by (simp add: example_descendants)
qed

text \<open>
  C2: when the designator is empty, or no window of the hierarchy has a resolved name
  that contains it, \<open>snoop_windows\<close> reports no match and selects input on every
  descendant of the root. In every case the monitoring set is empty only if the root
  has no descendants.
\<close>

theorem C2_fallback_monitoring:
  assumes "hierarchy_of d t" and "handle t = DefaultRootWindow d" and "height t \<le> n"
  shows "(D = [] \<or> (\<forall>w \<in> set (descendants t). \<not> name_contains d D w) \<longrightarrow>
            map_option (\<lambda>(st, found). (monitoring_set st, found))
              (snoop_windows n d D initial_state) = Some (set (descendants t), 0))
         \<and> (\<exists>st found. snoop_windows n d D initial_state = Some (st, found)
               \<and> (monitoring_set st = {} \<longrightarrow> descendants t = []))"
proof -
  note m = monitoring_of_snoop[OF assms, of D]
  have "D = [] \<or> (\<forall>w \<in> set (descendants t). \<not> name_contains d D w)
          \<Longrightarrow> filter (accepts d D) (descendants t) = []"
    by (auto simp: filter_empty_conv accepts_iff)
  with m have first: "D = [] \<or> (\<forall>w \<in> set (descendants t). \<not> name_contains d D w) \<longrightarrow>
            map_option (\<lambda>(st, found). (monitoring_set st, found))
              (snoop_windows n d D initial_state) = Some (set (descendants t), 0)"
    by simp
  from m obtain st found where s: "snoop_windows n d D initial_state = Some (st, found)"
    by (cases "snoop_windows n d D initial_state") (auto split: if_splits)
  with m have "monitoring_set st = {} \<longrightarrow> descendants t = []"
    by (auto split: if_splits)
  with s first show ?thesis by blast
qed

theorem C2_fallback_monitoring_witness:
  "hierarchy_of example_display example_tree
   \<and> handle example_tree = DefaultRootWindow example_display
   \<and> height example_tree \<le> 3
   \<and> descendants example_tree = [2, 4, 5, 3]
   \<and> \<not> name_contains example_display ''emacs'' 2
   \<and> \<not> name_contains example_display ''emacs'' 4
   \<and> \<not> name_contains example_display ''emacs'' 5
   \<and> \<not> name_contains example_display ''emacs'' 3
   \<and> map_option (\<lambda>(st, found). (monitoring_set st, found))
        (snoop_windows 3 example_display ''emacs'' initial_state) = Some ({2, 4, 5, 3}, 0)
   \<and> map_option (\<lambda>(st, found). (monitoring_set st, found))
        (snoop_windows 3 example_display [] initial_state) = Some ({2, 4, 5, 3}, 0)"
proof -
  have names: "\<not> name_contains example_display ''emacs'' 2"
    "\<not> name_contains example_display ''emacs'' 4"
    "\<not> name_contains example_display ''emacs'' 5"
    "\<not> name_contains example_display ''emacs'' 3"
    by (simp_all add: name_contains_def example_names sublist_code)
  from C2_fallback_monitoring[of example_display example_tree 3 "''emacs''"]
    C2_fallback_monitoring[of example_display example_tree 3 "[]"] names example_hierarchy
  show ?thesis by (simp add: example_descendants)
qed

section \<open>Claims about key translation and the capture loop\<close>

text \<open>
  C3 as stated fails for a key whose string is a NUL byte (Control with the space
  bar): the lookup yields one character, and the fragment read from \<open>key_buff\<close> is
  empty.
\<close>

theorem C3_counterexample:
  "translation example_keyboard (key_event 4 65) = ([NUL], 0x20)
   \<and> map_sum id c_str (TranslateKeyCode example_keyboard (key_event 4 65) (key_buff start_state))
       = Inr []"
  by (simp add: example_keyboard_def key_event_def TranslateKeyCode_def XLookupString_def
      start_state_def KEY_BUFF_SIZE_def c_str_def)

text \<open>
  C3, amended: for a key event whose lookup yields fewer than \<open>KEY_BUFF_SIZE\<close>
  characters, the fragment is the looked-up characters up to the first NUL byte when
  there is at least one character (exactly those characters, and non-empty, when none
  is NUL); it is the symbolic name in angle brackets when the lookup yields nothing
  and a name exists, cut to the 255 characters that \<open>snprintf\<close> stores when the name
  has more than 253; it is \<open><UnknownKey>\<close> when there is neither.
\<close>

theorem C3_translation:
  assumes "translation kb xk = (s, ks)" and "length s < KEY_BUFF_SIZE"
    and "length kbuf = KEY_BUFF_SIZE"
  shows "\<exists>buf'. TranslateKeyCode kb xk kbuf = Inr buf'
     \<and> (s \<noteq> [] \<longrightarrow> c_str buf' = c_str s)
     \<and> (s \<noteq> [] \<and> NUL \<notin> set s \<longrightarrow> c_str buf' = s \<and> c_str buf' \<noteq> [])
     \<and> (\<forall>X. s = [] \<and> XKeysymToString kb ks = Some X \<and> NUL \<notin> set X \<longrightarrow>
           c_str buf' = take 255 (''<'' @ X @ ''>'') \<and> c_str buf' \<noteq> []
           \<and> (length X \<le> 253 \<longrightarrow> c_str buf' = ''<'' @ X @ ''>''))
     \<and> (s = [] \<and> XKeysymToString kb ks = None \<longrightarrow> c_str buf' = ''<UnknownKey>'')"
proof -
  from TranslateKeyCode_short[OF assms]
  obtain buf' where b: "TranslateKeyCode kb xk kbuf = Inr buf'"
    and c: "c_str buf' =
         (if s \<noteq> [] then c_str s
          else case XKeysymToString kb ks of
                 Some tmp \<Rightarrow> c_str (take 255 (''<'' @ tmp @ ''>''))
               | None \<Rightarrow> ''<UnknownKey>'')" by blast
  have named: "c_str (take 255 (''<'' @ X @ ''>'')) = take 255 (''<'' @ X @ ''>'')"
    if "NUL \<notin> set X" for X
  proof -
    have "NUL \<notin> set (''<'' @ X @ ''>'')" using that by simp
    then have "NUL \<notin> set (take 255 (''<'' @ X @ ''>''))"
      by (meson in_set_takeD)
    then show ?thesis by (rule c_str_no_NUL)
  qed
  from b c named show ?thesis
    by (auto simp: c_str_no_NUL)
qed

theorem C3_translation_witness:
  "translation example_keyboard (key_event 0 43) = (''h'', 0x68)
   \<and> length ''h'' < KEY_BUFF_SIZE \<and> length (key_buff start_state) = KEY_BUFF_SIZE
   \<and> ''h'' \<noteq> [] \<and> NUL \<notin> set ''h''
   \<and> map_sum id c_str (TranslateKeyCode example_keyboard (key_event 0 43) (key_buff start_state))
       = Inr ''h''
   \<and> translation example_keyboard (key_event 0 36) = ([], 0xff0d)
   \<and> XKeysymToString example_keyboard 0xff0d = Some ''Return''
   \<and> NUL \<notin> set ''Return'' \<and> length ''Return'' \<le> 253
   \<and> map_sum id c_str (TranslateKeyCode example_keyboard (key_event 0 36) (key_buff start_state))
       = Inr ''<Return>''
   \<and> translation example_keyboard (key_event 0 248) = ([], 0)
   \<and> XKeysymToString example_keyboard 0 = None
   \<and> map_sum id c_str (TranslateKeyCode example_keyboard (key_event 0 248) (key_buff start_state))
       = Inr ''<UnknownKey>''"
proof -
  have tr: "translation example_keyboard (key_event 0 43) = (''h'', 0x68)"
    "translation example_keyboard (key_event 0 36) = ([], 0xff0d)"
    "translation example_keyboard (key_event 0 248) = ([], 0)"
    "XKeysymToString example_keyboard 0xff0d = Some ''Return''"
    "XKeysymToString example_keyboard 0 = None"
    by (simp_all add: example_keyboard_def key_event_def)
  have len: "length (key_buff start_state) = KEY_BUFF_SIZE"
    by (simp add: start_state_def)
  have k: "length ''h'' < KEY_BUFF_SIZE" "length ([]::char list) < KEY_BUFF_SIZE"
    by (simp_all add: KEY_BUFF_SIZE_def)
  from C3_translation[OF tr(1) k(1) len] C3_translation[OF tr(2) k(2) len]
    C3_translation[OF tr(3) k(2) len] tr len k
  show ?thesis by auto
qed

text \<open>
  C4: over any run of iterations that are all key presses (each with a successful
  \<open>fopen\<close> and a lookup shorter than the buffer), the log and the console grow by the
  fragments of the events, one after the other, with nothing in between.
\<close>

theorem C4_key_fragments_appended:
  assumes "\<forall>it \<in> set its. fopen_ok it
             \<and> (\<exists>xk. event it = KeyPress xk \<and> length (fst (translation kb xk)) < KEY_BUFF_SIZE)"
    and "length (key_buff cs) = KEY_BUFF_SIZE"
  shows "\<exists>cs'. capture_loop kb its cs = Inr cs'
     \<and> keylog cs' = keylog cs @ concat (map (logged_fragment kb) its)
     \<and> console cs' = console cs @ concat (map (logged_fragment kb) its)"
  using assms
proof (induction its arbitrary: cs)
  case Nil
  show ?case by simp
next
  case (Cons it its)
  from Cons.prems(1) obtain xk where it: "fopen_ok it" "event it = KeyPress xk"
    "length (fst (translation kb xk)) < KEY_BUFF_SIZE" by auto
  from loop_body_KeyPress[OF it Cons.prems(2)]
  obtain cs1 where 1: "loop_body kb it cs = Inr cs1" "length (key_buff cs1) = KEY_BUFF_SIZE"
    "keylog cs1 = keylog cs @ logged_fragment kb it"
    "console cs1 = console cs @ logged_fragment kb it" by blast
  from Cons.prems(1) have rest: "\<forall>it \<in> set its. fopen_ok it
      \<and> (\<exists>xk. event it = KeyPress xk \<and> length (fst (translation kb xk)) < KEY_BUFF_SIZE)"
    by simp
  from Cons.IH[OF rest 1(2)] 1 show ?case
    by auto
qed

theorem C4_key_fragments_appended_witness:
  "fopen_ok (key_press 43) \<and> fopen_ok (key_press 31) \<and> fopen_ok (key_press 36)
   \<and> event (key_press 43) = KeyPress (key_event 0 43)
   \<and> event (key_press 31) = KeyPress (key_event 0 31)
   \<and> event (key_press 36) = KeyPress (key_event 0 36)
   \<and> length (fst (translation example_keyboard (key_event 0 43))) < KEY_BUFF_SIZE
   \<and> length (fst (translation example_keyboard (key_event 0 31))) < KEY_BUFF_SIZE
   \<and> length (fst (translation example_keyboard (key_event 0 36))) < KEY_BUFF_SIZE
   \<and> length (key_buff start_state) = KEY_BUFF_SIZE
   \<and> map (logged_fragment example_keyboard) [key_press 43, key_press 31, key_press 36]
        = [''h'', ''i'', ''<Return>'']
   \<and> map_sum id keylog
        (capture_loop example_keyboard [key_press 43, key_press 31, key_press 36] start_state)
        = Inr (keylog start_state @ ''hi<Return>'')"
proof -
  have e: "fopen_ok (key_press 43)" "fopen_ok (key_press 31)" "fopen_ok (key_press 36)"
    "event (key_press 43) = KeyPress (key_event 0 43)"
    "event (key_press 31) = KeyPress (key_event 0 31)"
    "event (key_press 36) = KeyPress (key_event 0 36)"
    by (simp_all add: key_press_def)
  have t: "length (fst (translation example_keyboard (key_event 0 43))) < KEY_BUFF_SIZE"
    "length (fst (translation example_keyboard (key_event 0 31))) < KEY_BUFF_SIZE"
    "length (fst (translation example_keyboard (key_event 0 36))) < KEY_BUFF_SIZE"
    by (simp_all add: key_event_def example_keyboard_def KEY_BUFF_SIZE_def)
  have h: "\<forall>it \<in> set [key_press 43, key_press 31, key_press 36]. fopen_ok it
      \<and> (\<exists>xk. event it = KeyPress xk
            \<and> length (fst (translation example_keyboard xk)) < KEY_BUFF_SIZE)"
    using e t by simp
  have l: "length (key_buff start_state) = KEY_BUFF_SIZE"
    by (simp add: start_state_def)
  have f: "map (logged_fragment example_keyboard) [key_press 43, key_press 31, key_press 36]
        = [''h'', ''i'', ''<Return>'']"
    by (simp add: logged_fragment_def key_press_def example_fragments)
  from C4_key_fragments_appended[OF h l] f e t l show ?thesis
    by auto
qed

text \<open>
  C5 as stated fails in the count of lines. The log ends in a line break after the
  banner, and the record starts with one more, so a focus-in on window 2 leaves a blank
  line and the record. A title that holds a line break spreads over several lines, and
  here the second of them has the form of a focus record too.
\<close>

theorem C5_counterexample:
  "log_lines (keylog start_state) = [''Keylogger started'', []]
   \<and> map_sum id keylog (loop_body example_keyboard (focus_in 2) start_state)
       = Inr (''Keylogger started'' @ [NL] @ [NL]
                @ ''[2024-05-01 12:00:00] FocusIn: Firefox'' @ [NL])
   \<and> log_lines (''Keylogger started'' @ [NL] @ [NL]
                @ ''[2024-05-01 12:00:00] FocusIn: Firefox'' @ [NL])
       = [''Keylogger started'', [], ''[2024-05-01 12:00:00] FocusIn: Firefox'', []]
   \<and> map_sum id keylog (loop_body example_keyboard two_line_title (start_state\<lparr>keylog := ''hi''\<rparr>))
       = Inr (''hi'' @ [NL] @ ''[2024-05-01 12:00:00] FocusIn: a'' @ [NL]
                @ ''[2024-05-01 12:00:00] FocusIn: b'' @ [NL])
   \<and> log_lines (''hi'' @ [NL] @ ''[2024-05-01 12:00:00] FocusIn: a'' @ [NL]
                @ ''[2024-05-01 12:00:00] FocusIn: b'' @ [NL])
       = [''hi'', ''[2024-05-01 12:00:00] FocusIn: a'', ''[2024-05-01 12:00:00] FocusIn: b'', []]"
  by (simp add: loop_body_def focus_in_def two_line_title_def start_state_def example_names
      getWindowName_def example_display_def getTimeStr_def)

text \<open>
  C5, amended: on a focus-in event whose window has a non-empty name, the iteration
  appends to the log exactly a line break, the text \<open>[time] FocusIn: name\<close> and a
  line break, without the handle that the console line carries, and leaves what the
  log held before in place. The first line break closes the line that was open, which
  is left blank when the log ended in a line break; when neither the name nor the time
  holds a line break, the record is one line, and the lines of the log are the old
  ones, the record, and a new open line. When the window has no name or an empty
  one, the iteration changes nothing and the loop goes on.
\<close>

theorem C5_focus_in:
  assumes "event it = FocusIn w" and "fopen_ok it"
  shows "(\<forall>name. getWindowName (server it) w = Some name \<and> name \<noteq> [] \<longrightarrow>
            loop_body kb it cs =
              Inr (cs\<lparr>console := console cs @ [NL] @ ''['' @ getTimeStr (now it) @ ''] FocusIn: 0x''
                              @ hex (unat w) @ '' => '' @ name @ [NL],
                      keylog := keylog cs @ [NL] @ ''['' @ getTimeStr (now it) @ ''] FocusIn: ''
                              @ name @ [NL]\<rparr>))
         \<and> (\<forall>name. getWindowName (server it) w = Some name \<and> name \<noteq> []
                \<and> NL \<notin> set name \<and> NL \<notin> set (getTimeStr (now it)) \<longrightarrow>
              (\<exists>cs'. loop_body kb it cs = Inr cs'
                 \<and> log_lines (keylog cs') =
                     log_lines (keylog cs)
                       @ [''['' @ getTimeStr (now it) @ ''] FocusIn: '' @ name, []]))
         \<and> (getWindowName (server it) w = None \<or> getWindowName (server it) w = Some [] \<longrightarrow>
              loop_body kb it cs = Inr cs)"
proof -
  have lines: "log_lines (keylog cs @ [NL] @ ''['' @ ts @ ''] FocusIn: '' @ name @ [NL]) =
      log_lines (keylog cs) @ [''['' @ ts @ ''] FocusIn: '' @ name, []]"
    if "NL \<notin> set name" "NL \<notin> set ts" for name ts
  proof -
    have r: "NL \<notin> set (''['' @ ts @ ''] FocusIn: '' @ name)"
      using that by simp
    have "log_lines (keylog cs @ NL # (''['' @ ts @ ''] FocusIn: '' @ name) @ NL # []) =
      log_lines (keylog cs) @ log_lines (''['' @ ts @ ''] FocusIn: '' @ name) @ log_lines []"
      by (simp only: log_lines_append_NL)
    with log_lines_no_NL[OF r] show ?thesis by simp
  qed
  from assms lines show ?thesis
    by (auto simp: loop_body_def Let_def)
qed

theorem C5_focus_in_witness:
  "event (focus_in 2) = FocusIn 2 \<and> fopen_ok (focus_in 2)
   \<and> getWindowName (server (focus_in 2)) 2 = Some ''Firefox''
   \<and> NL \<notin> set ''Firefox'' \<and> NL \<notin> set (getTimeStr (now (focus_in 2)))
   \<and> map_sum id keylog (loop_body example_keyboard (focus_in 2) (start_state\<lparr>keylog := ''hi''\<rparr>))
        = Inr (''hi'' @ [NL] @ ''[2024-05-01 12:00:00] FocusIn: Firefox'' @ [NL])
   \<and> map_sum id (\<lambda>cs. log_lines (keylog cs))
        (loop_body example_keyboard (focus_in 2) (start_state\<lparr>keylog := ''hi''\<rparr>))
        = Inr [''hi'', ''[2024-05-01 12:00:00] FocusIn: Firefox'', []]
   \<and> map_sum id console (loop_body example_keyboard (focus_in 2) (start_state\<lparr>keylog := ''hi''\<rparr>))
        = Inr ([NL] @ ''[2024-05-01 12:00:00] FocusIn: 0x2 => Firefox'' @ [NL])
   \<and> event (focus_in 5) = FocusIn 5 \<and> fopen_ok (focus_in 5)
   \<and> getWindowName (server (focus_in 5)) 5 = None
   \<and> loop_body example_keyboard (focus_in 5) start_state = Inr start_state"
proof -
  have e: "event (focus_in 2) = FocusIn 2" "fopen_ok (focus_in 2)"
    "event (focus_in 5) = FocusIn 5" "fopen_ok (focus_in 5)"
    "server (focus_in 2) = example_display" "server (focus_in 5) = example_display"
    "getTimeStr (now (focus_in 2)) = ''2024-05-01 12:00:00''"
    by (simp_all add: focus_in_def getTimeStr_def)
  have hx: "hex (unat (2::Window)) = ''2''"
    by (simp add: hex_digit_def)
  have hi: "log_lines ''hi'' = [''hi'']"
    by simp
  from C5_focus_in[OF e(1,2), of example_keyboard "start_state\<lparr>keylog := ''hi''\<rparr>"]
    C5_focus_in[OF e(3,4), of example_keyboard start_state] e hx hi example_names
  show ?thesis
    by (auto simp: start_state_def)
qed

section \<open>Claims about names and the traversal\<close>

text \<open>
  C6: the name of a window is the C string of its \<open>_NET_WM_NAME\<close> property when that
  is present; without it, the legacy name when that is present; with neither there is
  no name, the window matches no designator, and no traversal adds it to
  \<open>matched_windows\<close>.
\<close>

theorem C6_name_resolution:
  "(\<forall>prop. XGetWindowProperty d w = Some prop \<longrightarrow> getWindowName d w = Some (c_str prop))
   \<and> (\<forall>legacy. XGetWindowProperty d w = None \<and> XFetchName d w = Some legacy \<longrightarrow>
         getWindowName d w = Some legacy)
   \<and> (XGetWindowProperty d w = None \<and> XFetchName d w = None \<longrightarrow>
         getWindowName d w = None
         \<and> (\<forall>D. \<not> accepts d D w)
         \<and> (\<forall>n D root st st'. find_matched_windows n d D root st = Some st' \<longrightarrow>
               w \<notin> set (matched_windows st) \<longrightarrow> w \<notin> set (matched_windows st')))"
proof -
  have "\<not> accepts d D w \<Longrightarrow> find_matched_windows n d D root st = Some st' \<Longrightarrow>
      w \<notin> set (matched_windows st) \<Longrightarrow> w \<notin> set (matched_windows st')" for n D root st st'
    using find_matched_sound[of n d D root st st'] by blast
  then show ?thesis
    by (auto simp: getWindowName_def accepts_def)
qed

theorem C6_name_resolution_witness:
  "XGetWindowProperty example_display 4 = Some (''xterm'' @ [NUL] @ ''junk'')
   \<and> getWindowName example_display 4 = Some ''xterm''
   \<and> XGetWindowProperty example_display 2 = None \<and> XFetchName example_display 2 = Some ''Firefox''
   \<and> getWindowName example_display 2 = Some ''Firefox''
   \<and> XGetWindowProperty example_display 5 = None \<and> XFetchName example_display 5 = None
   \<and> getWindowName example_display 5 = None
   \<and> find_matched_windows 3 example_display ''e'' 1 initial_state =
        Some \<lparr>matched_windows = [2, 4, 3], queried = [1, 2, 4, 5, 3], selected = []\<rparr>
   \<and> 5 \<notin> set [2, 4, 3::Window]"
proof -
  have p: "XGetWindowProperty example_display 4 = Some (''xterm'' @ [NUL] @ ''junk'')"
    "XGetWindowProperty example_display 2 = None" "XFetchName example_display 2 = Some ''Firefox''"
    "XGetWindowProperty example_display 5 = None" "XFetchName example_display 5 = None"
    by (simp_all add: example_display_def)
  have run: "find_matched_windows 3 example_display ''e'' 1 initial_state =
        Some \<lparr>matched_windows = [2, 4, 3], queried = [1, 2, 4, 5, 3], selected = []\<rparr>"
    using find_matched_windows_hierarchy[of example_display example_tree 3 "''e''" initial_state]
      example_hierarchy
    by (simp add: example_descendants accepts_iff name_contains_def example_names sublist_code
        initial_state_def) (simp add: example_tree_def)
  from C6_name_resolution[of example_display 4] C6_name_resolution[of example_display 2]
    C6_name_resolution[of example_display 5] p run
  show ?thesis by (simp add: c_str_def)
qed

text \<open>
  C7: \<open>nameMatchesDesignated\<close> accepts exactly when both strings are present and
  non-empty and the designator occurs in the name character by character (so
  \<open>firefox\<close> does not match \<open>Firefox\<close>). The empty designator matches no window, a
  window without a name never matches, and the traversal of a hierarchy still returns
  after querying every window of it, having collected the matching windows.
\<close>

theorem C7_name_predicate:
  "(nameMatchesDesignated wname designated \<noteq> 0 \<longleftrightarrow>
      (\<exists>wn des. wname = Some wn \<and> designated = Some des \<and> wn \<noteq> [] \<and> des \<noteq> []
         \<and> sublist des wn))
   \<and> nameMatchesDesignated (Some ''Firefox'') (Some ''firefox'') = 0
   \<and> nameMatchesDesignated (Some ''Firefox'') (Some ''fox'') = 1
   \<and> \<not> accepts d [] w
   \<and> (getWindowName d w = None \<longrightarrow> \<not> accepts d D w)
   \<and> (hierarchy_of d t \<and> height t \<le> n \<longrightarrow>
         (\<exists>st'. find_matched_windows n d D (handle t) st = Some st'
            \<and> queried st' = queried st @ preorder t
            \<and> set (matched_windows st') =
                set (matched_windows st) \<union> {w \<in> set (descendants t). accepts d D w}))"
proof -
  have "hierarchy_of d t \<and> height t \<le> n \<longrightarrow>
         (\<exists>st'. find_matched_windows n d D (handle t) st = Some st'
            \<and> queried st' = queried st @ preorder t
            \<and> set (matched_windows st') =
                set (matched_windows st) \<union> {w \<in> set (descendants t). accepts d D w})"
    using find_matched_windows_hierarchy[of d t n D st] by auto
  moreover have "nameMatchesDesignated (Some ''Firefox'') (Some ''firefox'') = 0"
    "nameMatchesDesignated (Some ''Firefox'') (Some ''fox'') = 1"
    by (simp_all add: nameMatchesDesignated_def)
  moreover have "\<not> accepts d [] w" "getWindowName d w = None \<longrightarrow> \<not> accepts d D w"
    by (simp_all add: accepts_iff name_contains_def)
  ultimately show ?thesis
    using nameMatchesDesignated_iff[of wname designated] by blast
qed

theorem C7_name_predicate_witness:
  "getWindowName example_display 5 = None
   \<and> hierarchy_of example_display example_tree \<and> height example_tree \<le> 3
   \<and> find_matched_windows 3 example_display ''e'' (handle example_tree) initial_state =
        Some \<lparr>matched_windows = [2, 4, 3], queried = [1, 2, 4, 5, 3], selected = []\<rparr>
   \<and> \<not> accepts example_display ''e'' 5
   \<and> nameMatchesDesignated (Some ''gedit'') (Some ''e'') \<noteq> 0"
proof -
  note c7 = C7_name_predicate[of "Some ''gedit''" "Some ''e''" example_display 5 "''e''"
      example_tree 3 initial_state]
  have s: "sublist ''e'' ''gedit''"
    by (simp add: sublist_code)
  have run: "find_matched_windows 3 example_display ''e'' (handle example_tree) initial_state =
        Some \<lparr>matched_windows = [2, 4, 3], queried = [1, 2, 4, 5, 3], selected = []\<rparr>"
    using find_matched_windows_hierarchy[of example_display example_tree 3 "''e''" initial_state]
      example_hierarchy
    by (simp add: example_descendants accepts_iff name_contains_def example_names sublist_code
        initial_state_def) (simp add: example_tree_def)
  from c7 s run example_hierarchy example_names(4) show ?thesis
    by simp
qed

text \<open>
  C8: the handles that the traversal appends to \<open>matched_windows\<close> are the accepted
  descendants of the start window in pre-order: each child is matched before its own
  subtree is entered, and its subtree is finished before the next child.
\<close>

theorem C8_match_order:
  assumes "hierarchy_of d t" and "height t \<le> n"
  shows "map_option matched_windows (find_matched_windows n d D (handle t) st) =
           Some (matched_windows st @ filter (accepts d D) (descendants t))"
  using find_matched_windows_hierarchy[OF assms, of D st] by simp

theorem C8_match_order_witness:
  "hierarchy_of example_display example_tree \<and> height example_tree \<le> 3
   \<and> descendants example_tree = [2, 4, 5, 3]
   \<and> map_option matched_windows
        (find_matched_windows 3 example_display ''e'' (handle example_tree) initial_state) =
      Some [2, 4, 3]"
proof -
  have acc: "filter (accepts example_display ''e'') [2, 4, 5, 3] = [2, 4, 3]"
    by (simp add: accepts_iff name_contains_def example_names sublist_code)
  from C8_match_order[of example_display example_tree 3 "''e''" initial_state] example_hierarchy acc
  show ?thesis
    by (simp add: example_descendants initial_state_def)
qed

text \<open>
  C9: on every finite hierarchy the traversal returns once the fuel reaches the height
  of the tree. It queries the windows of the hierarchy in pre-order, so no handle is
  queried twice when each window occurs once in the hierarchy. It returns straight
  after the query of the start window exactly when that query fails or reports no
  children; a failed query is not an error.
\<close>

theorem C9_traversal_terminates:
  assumes "hierarchy_of d t" and "height t \<le> n"
  shows "\<exists>st'. find_matched_windows n d D (handle t) st = Some st'
           \<and> queried st' = queried st @ preorder t
           \<and> (distinct (preorder t) \<longrightarrow> distinct (drop (length (queried st)) (queried st')))
           \<and> (queried st' = queried st @ [handle t] \<longleftrightarrow>
                XQueryTree d (handle t) = None \<or> XQueryTree d (handle t) = Some [])"
proof -
  obtain w ts where t: "t = WNode w ts" by (cases t)
  have "preorder t = [handle t] \<longleftrightarrow> ts = []"
    using t preorder_not_Nil by (cases ts) auto
  moreover have "ts = [] \<longleftrightarrow> XQueryTree d (handle t) = None \<or> XQueryTree d (handle t) = Some []"
    using assms(1) t by (auto split: option.splits)
  ultimately show ?thesis
    using find_matched_windows_hierarchy[OF assms, of D st] by simp
qed

theorem C9_traversal_terminates_witness:
  "hierarchy_of example_display example_tree \<and> height example_tree \<le> 3
   \<and> distinct (preorder example_tree)
   \<and> map_option queried
        (find_matched_windows 3 example_display ''e'' (handle example_tree) initial_state) =
      Some [1, 2, 4, 5, 3]
   \<and> hierarchy_of example_display (WNode 5 []) \<and> XQueryTree example_display 5 = None
   \<and> map_option queried (find_matched_windows 1 example_display ''e'' 5 initial_state) = Some [5]"
proof -
  have pre: "preorder example_tree = [1, 2, 4, 5, 3]"
    by (simp add: example_tree_def)
  have five: "hierarchy_of example_display (WNode 5 [])" "XQueryTree example_display 5 = None"
    by (simp_all add: example_display_def)
  from C9_traversal_terminates[of example_display example_tree 3 "''e''" initial_state]
    C9_traversal_terminates[of example_display "WNode 5 []" 1 "''e''" initial_state]
    example_hierarchy five pre
  show ?thesis
    by (auto simp: initial_state_def)
qed

section \<open>The terminator of the key buffer\<close>



end
